theory Spec2Isabelle
  imports Main
begin

section \<open>JavaScript values and text\<close>

text \<open>
  The client in \<^verbatim>\<open>frontend/src/utils/api.js\<close> works on JavaScript strings and on the
  values that \<^verbatim>\<open>JSON.parse\<close> and axios hand to it. Text is a list of code units
  (\<^typ>\<open>string\<close>, code units below 256); a value is one of the JavaScript value kinds
  the code can meet. Object members are kept in source order.
\<close>

datatype jsval =
    JUndefined
  | JNull
  | JBool bool
  | JNum int
  | JStr string
  | JArr "jsval list"
  | JObj "(string \<times> jsval) list"

text \<open>
  An exception of the runtime. \<^verbatim>\<open>error.message\<close> is read by the wrappers that
  rethrow with a prefixed message.
\<close>

datatype error =
    AxiosError string
  | TypeError string
  | Error string

fun message :: "error \<Rightarrow> string" where
  "message (AxiosError m) = m"
| "message (TypeError m) = m"
| "message (Error m) = m"

text \<open>JavaScript truthiness: what \<^verbatim>\<open>if (v)\<close> and \<^verbatim>\<open>!v\<close> test.\<close>

fun truthy :: "jsval \<Rightarrow> bool" where
  "truthy JUndefined = False"
| "truthy JNull = False"
| "truthy (JBool b) = b"
| "truthy (JNum n) = (n \<noteq> 0)"
| "truthy (JStr s) = (s \<noteq> [])"
| "truthy (JArr _) = True"
| "truthy (JObj _) = True"

text \<open>\<^verbatim>\<open>typeof v === 'object'\<close>: objects, arrays and \<^verbatim>\<open>null\<close>.\<close>

fun typeof_object :: "jsval \<Rightarrow> bool" where
  "typeof_object JNull = True"
| "typeof_object (JArr _) = True"
| "typeof_object (JObj _) = True"
| "typeof_object _ = False"

text \<open>A name in single quotes, as the messages of the runtime print it.\<close>

definition quoted :: "string \<Rightarrow> string" where
  "quoted name = [CHR 0x27] @ name @ [CHR 0x27]"

text \<open>
  Reading a property \<^verbatim>\<open>v.name\<close> for the names the client reads
  (\<^verbatim>\<open>type\<close>, \<^verbatim>\<open>text\<close>, \<^verbatim>\<open>redactedText\<close>), none of which is a property of a
  built-in prototype: on \<^verbatim>\<open>undefined\<close> and \<^verbatim>\<open>null\<close> the read throws a TypeError, on an
  object it gives the member (the last one of that name, as \<^verbatim>\<open>JSON.parse\<close> keeps the
  last duplicate) or \<^verbatim>\<open>undefined\<close>, on every other value \<^verbatim>\<open>undefined\<close>.
\<close>

fun get_prop :: "jsval \<Rightarrow> string \<Rightarrow> error + jsval" where
  "get_prop JUndefined name =
     Inl (TypeError (''Cannot read properties of undefined (reading '' @ quoted name @ '')''))"
| "get_prop JNull name =
     Inl (TypeError (''Cannot read properties of null (reading '' @ quoted name @ '')''))"
| "get_prop (JObj members) name =
     Inr (case map_of (rev members) name of None \<Rightarrow> JUndefined | Some v \<Rightarrow> v)"
| "get_prop _ name = Inr JUndefined"

subsection \<open>String methods\<close>

text \<open>
  \<^verbatim>\<open>String.prototype.trim\<close> removes white space and line terminators from both ends.
  Among the code units below 256 these are TAB, LF, VT, FF, CR, SPACE and NBSP.
\<close>

definition is_ws :: "char \<Rightarrow> bool" where
  "is_ws c \<longleftrightarrow> c \<in> set [CHR 0x09, CHR 0x0A, CHR 0x0B, CHR 0x0C, CHR 0x0D, CHR 0x20, CHR 0xA0]"

definition trim :: "string \<Rightarrow> string" where
  "trim s = rev (dropWhile is_ws (rev (dropWhile is_ws s)))"

text \<open>
  \<^verbatim>\<open>s.split(sep)\<close> for a one-character separator: the pieces between the separators,
  so the result is never empty and \<^verbatim>\<open>''.split(sep)\<close> is \<^verbatim>\<open>['']\<close>. The first
  branch of the \<open>case\<close> is never taken.
\<close>

fun split_on :: "char \<Rightarrow> string \<Rightarrow> string list" where
  "split_on sep [] = [[]]"
| "split_on sep (c # cs) =
     (if c = sep then [] # split_on sep cs
      else (case split_on sep cs of [] \<Rightarrow> [[c]] | p # ps \<Rightarrow> (c # p) # ps))"

text \<open>\<^verbatim>\<open>s.indexOf(c)\<close>: the first position of the character, or -1.\<close>

fun index_from :: "string \<Rightarrow> char \<Rightarrow> int \<Rightarrow> int" where
  "index_from [] c i = -1"
| "index_from (x # xs) c i = (if x = c then i else index_from xs c (i + 1))"

definition indexOf :: "string \<Rightarrow> char \<Rightarrow> int" where
  "indexOf s c = index_from s c 0"

text \<open>
  \<^verbatim>\<open>s.slice(start, end)\<close> and \<^verbatim>\<open>s.slice(start)\<close>: a negative index counts from the
  end, and every index is clamped to the string.
\<close>

definition slice_index :: "string \<Rightarrow> int \<Rightarrow> nat" where
  "slice_index s i =
     (if i < 0 then nat (max (int (length s) + i) 0) else min (nat i) (length s))"

definition slice :: "string \<Rightarrow> int \<Rightarrow> int \<Rightarrow> string" where
  "slice s start end = take (slice_index s end - slice_index s start) (drop (slice_index s start) s)"

definition slice_from :: "string \<Rightarrow> int \<Rightarrow> string" where
  "slice_from s start = drop (slice_index s start) s"

text \<open>\<^verbatim>\<open>s.startsWith(p)\<close>.\<close>

definition startsWith :: "string \<Rightarrow> string \<Rightarrow> bool" where
  "startsWith s p \<longleftrightarrow> take (length p) s = p"

text \<open>\<^verbatim>\<open>xs.join(sep)\<close> on an array of strings.\<close>

fun join :: "string \<Rightarrow> string list \<Rightarrow> string" where
  "join sep [] = []"
| "join sep [x] = x"
| "join sep (x # y # ys) = x @ sep @ join sep (y # ys)"

subsection \<open>A reader for JSON text\<close>

text \<open>
  \<^verbatim>\<open>JSON.parse\<close> belongs to the runtime. The client's functions take the parser as a
  parameter, \<^typ>\<open>string \<Rightarrow> jsval option\<close> with \<^term>\<open>None\<close> for a thrown SyntaxError,
  and the general theorems hold for every parser. For evaluation on concrete streams,
  \<open>json_parse\<close> below reads the JSON grammar with integer numbers and the
  one-character escapes; it rejects fractions, exponents and \<^verbatim>\<open>\u\<close> escapes, which
  no concrete input in this theory uses.
\<close>

definition json_ws :: "char \<Rightarrow> bool" where
  "json_ws c \<longleftrightarrow> c \<in> set [CHR 0x20, CHR 0x09, CHR 0x0A, CHR 0x0D]"

definition skip_ws :: "string \<Rightarrow> string" where
  "skip_ws s = dropWhile json_ws s"

definition is_digit :: "char \<Rightarrow> bool" where
  "is_digit c \<longleftrightarrow> c \<in> set ''0123456789''"

definition digit_val :: "char \<Rightarrow> int" where
  "digit_val c = int (of_char c) - 48"

fun unescape :: "char \<Rightarrow> char option" where
  "unescape c =
     (if c = CHR 0x22 then Some (CHR 0x22)
      else if c = CHR 0x5C then Some (CHR 0x5C)
      else if c = CHR ''/'' then Some (CHR ''/'')
      else if c = CHR ''b'' then Some (CHR 0x08)
      else if c = CHR ''f'' then Some (CHR 0x0C)
      else if c = CHR ''n'' then Some (CHR 0x0A)
      else if c = CHR ''r'' then Some (CHR 0x0D)
      else if c = CHR ''t'' then Some (CHR 0x09)
      else None)"

text \<open>The characters of a string literal after its opening quote, up to the closing one.\<close>

fun parse_string_body :: "string \<Rightarrow> string \<Rightarrow> (string \<times> string) option" where
  "parse_string_body [] acc = None"
| "parse_string_body [c] acc = (if c = CHR 0x22 then Some (rev acc, []) else None)"
| "parse_string_body (c # d # cs) acc =
     (if c = CHR 0x22 then Some (rev acc, d # cs)
      else if c = CHR 0x5C then
        (case unescape d of None \<Rightarrow> None | Some x \<Rightarrow> parse_string_body cs (x # acc))
      else if (of_char c :: nat) < 32 then None
      else parse_string_body (d # cs) (c # acc))"

fun parse_digits :: "string \<Rightarrow> int \<Rightarrow> int \<times> string" where
  "parse_digits [] n = (n, [])"
| "parse_digits (c # cs) n =
     (if is_digit c then parse_digits cs (10 * n + digit_val c) else (n, c # cs))"

text \<open>An integer: an optional minus sign, then \<^verbatim>\<open>0\<close> or a digit string without leading zero.\<close>

definition parse_nat_lit :: "string \<Rightarrow> (int \<times> string) option" where
  "parse_nat_lit s =
     (case s of
        [] \<Rightarrow> None
      | c # cs \<Rightarrow>
          if c = CHR ''0'' then Some (0, cs)
          else if is_digit c then Some (parse_digits (c # cs) 0)
          else None)"

definition number_ends :: "string \<Rightarrow> bool" where
  "number_ends r \<longleftrightarrow> (case r of [] \<Rightarrow> True | c # _ \<Rightarrow> \<not> is_digit c \<and> c \<notin> set ''.eE'')"

definition parse_number :: "string \<Rightarrow> (jsval \<times> string) option" where
  "parse_number s =
     (case s of
        [] \<Rightarrow> None
      | c # cs \<Rightarrow>
          (case (if c = CHR ''-'' then parse_nat_lit cs else parse_nat_lit (c # cs)) of
             None \<Rightarrow> None
           | Some (n, r) \<Rightarrow>
               if number_ends r then Some (JNum (if c = CHR ''-'' then - n else n), r)
               else None))"

text \<open>
  Values, array elements and object members. The first argument bounds the number of
  nested calls; \<open>json_parse\<close> starts with more than the text can use.
\<close>

fun parse_value :: "nat \<Rightarrow> string \<Rightarrow> (jsval \<times> string) option"
  and parse_elements :: "nat \<Rightarrow> string \<Rightarrow> jsval list \<Rightarrow> (jsval \<times> string) option"
  and parse_members :: "nat \<Rightarrow> string \<Rightarrow> (string \<times> jsval) list \<Rightarrow> (jsval \<times> string) option"
where
  "parse_value 0 s = None"
| "parse_value (Suc n) s =
     (case skip_ws s of
        [] \<Rightarrow> None
      | c # cs \<Rightarrow>
          if c = CHR ''{'' then
            (if startsWith (skip_ws cs) ''}'' then Some (JObj [], drop 1 (skip_ws cs))
             else parse_members n cs [])
          else if c = CHR ''['' then
            (if startsWith (skip_ws cs) '']'' then Some (JArr [], drop 1 (skip_ws cs))
             else parse_elements n cs [])
          else if c = CHR 0x22 then
            (case parse_string_body cs [] of
               None \<Rightarrow> None
             | Some (str, r) \<Rightarrow> Some (JStr str, r))
          else if startsWith (c # cs) ''null'' then Some (JNull, drop 4 (c # cs))
          else if startsWith (c # cs) ''true'' then Some (JBool True, drop 4 (c # cs))
          else if startsWith (c # cs) ''false'' then Some (JBool False, drop 5 (c # cs))
          else parse_number (c # cs))"
| "parse_elements 0 s acc = None"
| "parse_elements (Suc n) s acc =
     (case parse_value n s of
        None \<Rightarrow> None
      | Some (v, r) \<Rightarrow>
          if startsWith (skip_ws r) '','' then parse_elements n (drop 1 (skip_ws r)) (acc @ [v])
          else if startsWith (skip_ws r) '']'' then Some (JArr (acc @ [v]), drop 1 (skip_ws r))
          else None)"
| "parse_members 0 s acc = None"
| "parse_members (Suc n) s acc =
     (if startsWith (skip_ws s) [CHR 0x22] then
        (case parse_string_body (drop 1 (skip_ws s)) [] of
           None \<Rightarrow> None
         | Some (k, r) \<Rightarrow>
             if startsWith (skip_ws r) '':'' then
               (case parse_value n (drop 1 (skip_ws r)) of
                  None \<Rightarrow> None
                | Some (v, r') \<Rightarrow>
                    if startsWith (skip_ws r') '','' then
                      parse_members n (drop 1 (skip_ws r')) (acc @ [(k, v)])
                    else if startsWith (skip_ws r') ''}'' then
                      Some (JObj (acc @ [(k, v)]), drop 1 (skip_ws r'))
                    else None)
             else None)
      else None)"

definition json_parse :: "string \<Rightarrow> jsval option" where
  "json_parse s =
     (case parse_value (2 * length s + 2) s of
        None \<Rightarrow> None
      | Some (v, r) \<Rightarrow> if skip_ws r = [] then Some v else None)"


section \<open>The API client\<close>

text \<open>
  The backend behind \<^verbatim>\<open>api.post\<close> is outside the client. A call takes the state of
  the outside world, the path and the request body, and gives the rejection of the
  promise (\<^term>\<open>Inl\<close>) or \<^verbatim>\<open>response.data\<close> (\<^term>\<open>Inr\<close>), with the world after the call.
\<close>

type_synonym ('w, 'r) capability = "'w \<Rightarrow> string \<Rightarrow> jsval \<Rightarrow> (error + 'r) \<times> 'w"

text \<open>
  A streamed response: the text decoded from each network chunk, in arrival order, and
  how the stream closes (\<^verbatim>\<open>'end'\<close> or \<^verbatim>\<open>'error'\<close>).
\<close>

datatype stream_end = End | Failed error

type_synonym response_stream = "string list \<times> stream_end"

definition newline :: char where
  "newline = CHR 0x0A"

definition dquote :: char where
  "dquote = CHR 0x22"

subsection \<open>retrieveAndAnalyzeArticles\<close>

text \<open>
  The body of the \<^verbatim>\<open>try\<close> inside the loop: parse the line and hand the value to
  \<^verbatim>\<open>onProgress\<close> when \<^verbatim>\<open>data && typeof data === 'object' && data.type\<close>. A
  SyntaxError is logged and the line dropped. The list is the sequence of values given
  to the callback so far.
\<close>

definition has_type :: "jsval \<Rightarrow> bool" where
  "has_type data \<longleftrightarrow>
     truthy data \<and> typeof_object data \<and>
     (case get_prop data ''type'' of Inl _ \<Rightarrow> False | Inr t \<Rightarrow> truthy t)"

definition parse_line :: "(string \<Rightarrow> jsval option) \<Rightarrow> string \<Rightarrow> jsval list \<Rightarrow> jsval list" where
  "parse_line parse line delivered =
     (case parse line of
        None \<Rightarrow> delivered
      | Some data \<Rightarrow> if has_type data then delivered @ [data] else delivered)"

text \<open>
  The \<^verbatim>\<open>while (lineEnd !== -1)\<close> loop of the \<^verbatim>\<open>'data'\<close> handler, on the variables
  \<^verbatim>\<open>buffer\<close> and \<^verbatim>\<open>lineEnd\<close>. The \<^verbatim>\<open>continue\<close> on an empty line goes back
  to the loop test without reaching \<^verbatim>\<open>lineEnd = buffer.indexOf('\n')\<close>, so the next
  round runs with the old \<^verbatim>\<open>lineEnd\<close>. The loop need not end: \<^term>\<open>None\<close> is a
  handler that never returns.
\<close>

partial_function (option) drain ::
  "(string \<Rightarrow> jsval option) \<Rightarrow> string \<Rightarrow> int \<Rightarrow> jsval list \<Rightarrow> (string \<times> jsval list) option"
where
  "drain parse buffer lineEnd delivered =
     (if lineEnd \<noteq> -1 then
        (if trim (slice buffer 0 lineEnd) = [] then
           drain parse (slice_from buffer (lineEnd + 1)) lineEnd delivered
         else
           drain parse (slice_from buffer (lineEnd + 1))
             (indexOf (slice_from buffer (lineEnd + 1)) newline)
             (parse_line parse (trim (slice buffer 0 lineEnd)) delivered))
      else Some (buffer, delivered))"

declare drain.simps [code]

text \<open>
  The \<^verbatim>\<open>'data'\<close> handler: append the decoded chunk to the buffer, then run the loop.
  The chunk is the text \<^verbatim>\<open>decoder.decode(chunk, { stream: true })\<close> returns: in
  streaming mode the decoder keeps an incomplete multi-byte sequence for the next call,
  so cutting the bytes of a stream differently cuts its text differently and changes
  nothing else.
\<close>

definition on_data ::
  "(string \<Rightarrow> jsval option) \<Rightarrow> string \<times> jsval list \<Rightarrow> string \<Rightarrow> (string \<times> jsval list) option"
where
  "on_data parse st chunk =
     drain parse (fst st @ chunk) (indexOf (fst st @ chunk) newline) (snd st)"

fun read_chunks ::
  "(string \<Rightarrow> jsval option) \<Rightarrow> string \<times> jsval list \<Rightarrow> string list \<Rightarrow> (string \<times> jsval list) option"
where
  "read_chunks parse st [] = Some st"
| "read_chunks parse st (chunk # chunks) =
     (case on_data parse st chunk of
        None \<Rightarrow> None
      | Some st' \<Rightarrow> read_chunks parse st' chunks)"

definition retrieve_request :: "string \<Rightarrow> string list \<Rightarrow> string \<Rightarrow> int \<Rightarrow> jsval" where
  "retrieve_request disease events methodologyContent numArticles =
     JObj [(''events_text'', JStr (join [newline] events)),
           (''methodology_content'', JStr methodologyContent),
           (''disease'', JStr disease),
           (''num_articles'', JNum numArticles)]"

definition settle :: "stream_end \<Rightarrow> error + unit" where
  "settle ending = (case ending of End \<Rightarrow> Inr () | Failed e \<Rightarrow> Inl e)"

text \<open>
  The whole call. The result is \<^term>\<open>None\<close> when a handler never returns; otherwise
  the outcome of the promise, the values given to \<^verbatim>\<open>onProgress\<close> in order, and the
  world after the request.
\<close>

definition retrieveAndAnalyzeArticles ::
  "(string \<Rightarrow> jsval option) \<Rightarrow> ('w, response_stream) capability \<Rightarrow> 'w \<Rightarrow>
   string \<Rightarrow> string list \<Rightarrow> string \<Rightarrow> int \<Rightarrow> (((error + unit) \<times> jsval list) \<times> 'w) option"
where
  "retrieveAndAnalyzeArticles parse post w disease events methodologyContent numArticles =
     (case post w ''/capricorn-retrieve-full-articles''
             (retrieve_request disease events methodologyContent numArticles) of
        (Inl e, w') \<Rightarrow> Some ((Inl e, []), w')
      | (Inr (chunks, ending), w') \<Rightarrow>
          (case read_chunks parse ([], []) chunks of
             None \<Rightarrow> None
           | Some (buffer, delivered) \<Rightarrow> Some ((settle ending, delivered), w')))"

subsection \<open>streamChat\<close>

text \<open>
  The \<^verbatim>\<open>for (const line of lines)\<close> loop of the \<^verbatim>\<open>'data'\<close> handler. \<^verbatim>\<open>break\<close>
  leaves the loop of this chunk. Reading \<^verbatim>\<open>parsed.text\<close> on \<^verbatim>\<open>null\<close> throws inside the
  \<^verbatim>\<open>try\<close> and is logged like a SyntaxError.
\<close>

definition chat_frame :: "(string \<Rightarrow> jsval option) \<Rightarrow> string \<Rightarrow> jsval list \<Rightarrow> jsval list" where
  "chat_frame parse data delivered =
     (case parse data of
        None \<Rightarrow> delivered
      | Some parsed \<Rightarrow>
          (case get_prop parsed ''text'' of
             Inl _ \<Rightarrow> delivered
           | Inr t \<Rightarrow> if truthy t then delivered @ [t] else delivered))"

fun chat_lines :: "(string \<Rightarrow> jsval option) \<Rightarrow> string list \<Rightarrow> jsval list \<Rightarrow> jsval list" where
  "chat_lines parse [] delivered = delivered"
| "chat_lines parse (line # lines) delivered =
     (if startsWith line ''data: '' then
        (if slice_from line 6 = ''[DONE]'' then delivered
         else chat_lines parse lines (chat_frame parse (slice_from line 6) delivered))
      else chat_lines parse lines delivered)"

definition on_chat_data :: "(string \<Rightarrow> jsval option) \<Rightarrow> jsval list \<Rightarrow> string \<Rightarrow> jsval list" where
  "on_chat_data parse delivered chunk = chat_lines parse (split_on newline chunk) delivered"

definition chat_request :: "string \<Rightarrow> string \<Rightarrow> string \<Rightarrow> jsval" where
  "chat_request msg userId chatId =
     JObj [(''message'', JStr msg), (''userId'', JStr userId), (''chatId'', JStr chatId)]"

definition streamChat ::
  "(string \<Rightarrow> jsval option) \<Rightarrow> ('w, response_stream) capability \<Rightarrow> 'w \<Rightarrow>
   string \<Rightarrow> string \<Rightarrow> string \<Rightarrow> ((error + unit) \<times> jsval list) \<times> 'w"
where
  "streamChat parse post w msg userId chatId =
     (case post w ''/capricorn-chat'' (chat_request msg userId chatId) of
        (Inl e, w') \<Rightarrow> ((Inl e, []), w')
      | (Inr (chunks, ending), w') \<Rightarrow>
          ((settle ending, foldl (on_chat_data parse) [] chunks), w'))"

subsection \<open>redactSensitiveInfo, extractDisease, extractEvents\<close>

definition text_request :: "string \<Rightarrow> jsval" where
  "text_request t = JObj [(''text'', JStr t)]"

definition redactSensitiveInfo :: "('w, jsval) capability \<Rightarrow> 'w \<Rightarrow> string \<Rightarrow> (error + jsval) \<times> 'w" where
  "redactSensitiveInfo post w t =
     (case post w ''/capricorn-redact-sensitive-info'' (text_request t) of
        (Inl e, w') \<Rightarrow>
          (Inl (Error (''Failed to redact sensitive information: '' @ message e)), w')
      | (Inr data, w') \<Rightarrow>
          (case get_prop data ''redactedText'' of
             Inl e \<Rightarrow> (Inl (Error (''Failed to redact sensitive information: '' @ message e)), w')
           | Inr v \<Rightarrow> (Inr v, w')))"

text \<open>
  \<^verbatim>\<open>response.data.trim()\<close>: the method exists on strings only; on another value the
  call throws a TypeError, which the \<^verbatim>\<open>catch\<close> rethrows as it is.
\<close>

fun call_trim :: "jsval \<Rightarrow> error + string" where
  "call_trim (JStr s) = Inr (trim s)"
| "call_trim JUndefined =
     Inl (TypeError (''Cannot read properties of undefined (reading '' @ quoted ''trim'' @ '')''))"
| "call_trim JNull =
     Inl (TypeError (''Cannot read properties of null (reading '' @ quoted ''trim'' @ '')''))"
| "call_trim _ = Inl (TypeError ''response.data.trim is not a function'')"

definition extractDisease :: "('w, jsval) capability \<Rightarrow> 'w \<Rightarrow> string \<Rightarrow> (error + string) \<times> 'w" where
  "extractDisease post w t =
     (case post w ''/pubmed-search-tester-extract-disease'' (text_request t) of
        (Inl e, w') \<Rightarrow> (Inl e, w')
      | (Inr data, w') \<Rightarrow> (call_trim data, w'))"

text \<open>The filter predicate \<^verbatim>\<open>event => event.trim() && event !== ' '\<close>.\<close>

definition keep_event :: "string \<Rightarrow> bool" where
  "keep_event event \<longleftrightarrow> trim event \<noteq> [] \<and> event \<noteq> '' ''"

fun call_split_filter :: "jsval \<Rightarrow> error + string list" where
  "call_split_filter (JStr s) = Inr (filter keep_event (split_on dquote s))"
| "call_split_filter JUndefined =
     Inl (TypeError (''Cannot read properties of undefined (reading '' @ quoted ''split'' @ '')''))"
| "call_split_filter JNull =
     Inl (TypeError (''Cannot read properties of null (reading '' @ quoted ''split'' @ '')''))"
| "call_split_filter _ = Inl (TypeError ''response.data.split is not a function'')"

definition events_request :: "string \<Rightarrow> string \<Rightarrow> jsval" where
  "events_request t promptContent =
     text_request (promptContent @ [newline, newline] @ ''Case input:'' @ [newline] @ t)"

definition extractEvents ::
  "('w, jsval) capability \<Rightarrow> 'w \<Rightarrow> string \<Rightarrow> string \<Rightarrow> (error + string list) \<times> 'w"
where
  "extractEvents post w t promptContent =
     (case post w ''/pubmed-search-tester-extract-events'' (events_request t promptContent) of
        (Inl e, w') \<Rightarrow> (Inl e, w')
      | (Inr data, w') \<Rightarrow> (call_split_filter data, w'))"


section \<open>The configuration module\<close>

text \<open>
  The module variable \<^verbatim>\<open>config\<close> (\<^verbatim>\<open>null\<close> when the module is loaded), with a count
  of the \<^verbatim>\<open>fetch('/api/config')\<close> calls issued so far. The count is not in the source;
  it is kept to state how often the module fetches.
\<close>

record config_module =
  config :: jsval
  fetches :: nat

definition loaded :: config_module where
  "loaded = \<lparr>config = JNull, fetches = 0\<rparr>"

definition config_keys :: "string list" where
  "config_keys =
     [''REACT_APP_API_BASE_URL'', ''REACT_APP_FIREBASE_API_KEY'',
      ''REACT_APP_FIREBASE_AUTH_DOMAIN'', ''REACT_APP_FIREBASE_PROJECT_ID'',
      ''REACT_APP_FIREBASE_STORAGE_BUCKET'', ''REACT_APP_FIREBASE_MESSAGING_SENDER_ID'',
      ''REACT_APP_FIREBASE_APP_ID'', ''REACT_APP_FIREBASE_MEASUREMENT_ID'']"

text \<open>The object built in the \<^verbatim>\<open>catch\<close> from \<^verbatim>\<open>process.env\<close>.\<close>

definition fallback :: "(string \<Rightarrow> jsval) \<Rightarrow> jsval" where
  "fallback env = JObj (map (\<lambda>k. (k, env k)) config_keys)"

text \<open>
  An async function runs up to its first pending \<^verbatim>\<open>await\<close> and is resumed when the
  awaited promise settles. \<open>Awaiting k\<close>: the call waits for the fetch numbered
  \<open>k\<close>; \<open>Returned v\<close>: it has returned \<open>v\<close>.
\<close>

datatype progress = Returned jsval | Awaiting nat

text \<open>\<^verbatim>\<open>fetchConfig\<close> up to \<^verbatim>\<open>await fetch('/api/config')\<close>.\<close>

definition fetchConfig_begin :: "config_module \<Rightarrow> progress \<times> config_module" where
  "fetchConfig_begin m =
     (if \<not> truthy (config m) then (Awaiting (fetches m), m\<lparr>fetches := Suc (fetches m)\<rparr>)
      else (Returned (config m), m))"

text \<open>
  \<^verbatim>\<open>fetchConfig\<close> from the settled fetch on. The outcome is the value of
  \<^verbatim>\<open>response.json()\<close>, or the rejection of \<^verbatim>\<open>fetch\<close> or of \<^verbatim>\<open>response.json()\<close>,
  which the \<^verbatim>\<open>catch\<close> answers with the fallback.
\<close>

definition fetchConfig_resume ::
  "(string \<Rightarrow> jsval) \<Rightarrow> error + jsval \<Rightarrow> config_module \<Rightarrow> jsval \<times> config_module"
where
  "fetchConfig_resume env outcome m =
     (let m' = m\<lparr>config := (case outcome of Inl _ \<Rightarrow> fallback env | Inr json \<Rightarrow> json)\<rparr>
      in (config m', m'))"

text \<open>\<^verbatim>\<open>getConfig\<close> up to the pending fetch, and from the settled fetch on.\<close>

definition getConfig_begin :: "config_module \<Rightarrow> progress \<times> config_module" where
  "getConfig_begin m =
     (if \<not> truthy (config m) then fetchConfig_begin m else (Returned (config m), m))"

definition getConfig_resume ::
  "(string \<Rightarrow> jsval) \<Rightarrow> error + jsval \<Rightarrow> config_module \<Rightarrow> jsval \<times> config_module"
where
  "getConfig_resume env outcome m =
     (let m' = snd (fetchConfig_resume env outcome m) in (config m', m'))"

text \<open>
  A call that runs from start to return with no other call in between. \<open>network k\<close>
  is the outcome of the fetch numbered \<open>k\<close>.
\<close>

definition getConfig ::
  "(nat \<Rightarrow> error + jsval) \<Rightarrow> (string \<Rightarrow> jsval) \<Rightarrow> config_module \<Rightarrow> jsval \<times> config_module"
where
  "getConfig network env m =
     (case getConfig_begin m of
        (Returned v, m') \<Rightarrow> (v, m')
      | (Awaiting k, m') \<Rightarrow> getConfig_resume env (network k) m')"

text \<open>\<open>n\<close> calls, each awaited before the next: the values returned and the module after.\<close>

fun getConfig_calls ::
  "(nat \<Rightarrow> error + jsval) \<Rightarrow> (string \<Rightarrow> jsval) \<Rightarrow> nat \<Rightarrow> config_module \<Rightarrow> jsval list \<times> config_module"
where
  "getConfig_calls network env 0 m = ([], m)"
| "getConfig_calls network env (Suc n) m =
     (let (v, m') = getConfig network env m;
          (vs, m'') = getConfig_calls network env n m'
      in (v # vs, m''))"

section \<open>Notions of the specification\<close>

text \<open>
  The lines of a text: \<open>complete_lines\<close> are the lines closed by a newline,
  \<open>partial_line\<close> is what follows the last newline.
\<close>

definition complete_lines :: "string \<Rightarrow> string list" where
  "complete_lines s = butlast (split_on newline s)"

definition partial_line :: "string \<Rightarrow> string" where
  "partial_line s = last (split_on newline s)"

text \<open>A line is blank when it is empty or holds white space only.\<close>

definition blank :: "string \<Rightarrow> bool" where
  "blank s \<longleftrightarrow> (\<forall>c \<in> set s. is_ws c)"

text \<open>
  The progress event of a line, if it carries one: the line parses to an object with a
  truthy \<^verbatim>\<open>type\<close>. \<open>events_of\<close> reads a list of lines one by one.
\<close>

definition line_event :: "(string \<Rightarrow> jsval option) \<Rightarrow> string \<Rightarrow> jsval option" where
  "line_event parse line =
     (case parse (trim line) of
        None \<Rightarrow> None
      | Some data \<Rightarrow> if has_type data then Some data else None)"

definition events_of :: "(string \<Rightarrow> jsval option) \<Rightarrow> string list \<Rightarrow> jsval list" where
  "events_of parse lines = List.map_filter (line_event parse) lines"

text \<open>
  Every value of a list is the result of parsing some text and is an object with a
  truthy \<^verbatim>\<open>type\<close>.
\<close>

definition typed_values :: "(string \<Rightarrow> jsval option) \<Rightarrow> jsval list \<Rightarrow> bool" where
  "typed_values parse vs \<longleftrightarrow> (\<forall>d \<in> set vs. has_type d \<and> (\<exists>line. parse line = Some d))"

text \<open>
  The reading in which a blank line is skipped and the lines after it are processed.
\<close>

definition skipping_blank_lines :: "(string \<Rightarrow> jsval option) \<Rightarrow> string \<Rightarrow> jsval list" where
  "skipping_blank_lines parse s = events_of parse (filter (\<lambda>l. \<not> blank l) (complete_lines s))"

text \<open>
  In a captured sequence of events, exactly one is terminal and it is the last one.
  Which events are terminal is a parameter; \<open>is_done\<close> is the event of type
  \<^verbatim>\<open>"done"\<close>.
\<close>

definition terminal_is_last :: "(jsval \<Rightarrow> bool) \<Rightarrow> jsval list \<Rightarrow> bool" where
  "terminal_is_last terminal es \<longleftrightarrow>
     es \<noteq> [] \<and> filter (\<lambda>i. terminal (es ! i)) [0..<length es] = [length es - 1]"

definition is_done :: "jsval \<Rightarrow> bool" where
  "is_done e \<longleftrightarrow> get_prop e ''type'' = Inr (JStr ''done'')"

text \<open>
  A server-sent-event frame: a \<^verbatim>\<open>data:\<close> line closed by an empty line.
\<close>

definition sse_frame :: "string \<Rightarrow> string" where
  "sse_frame payload = ''data: '' @ payload @ [newline, newline]"

section \<open>Backends for concrete runs\<close>

text \<open>
  A backend that answers every request with the same response and leaves the world as
  it is.
\<close>

definition answering :: "'r \<Rightarrow> ('w, 'r) capability" where
  "answering r = (\<lambda>w path body. (Inr r, w))"

text \<open>A backend that rejects every request with the same error.\<close>

definition rejecting :: "error \<Rightarrow> ('w, 'r) capability" where
  "rejecting e = (\<lambda>w path body. (Inl e, w))"

text \<open>
  A backend that answers every request with the same response and counts the requests
  it has served: a deterministic stub whose state changes with every call.
\<close>

definition counting :: "'r \<Rightarrow> (nat, 'r) capability" where
  "counting r = (\<lambda>served path body. (Inr r, Suc served))"

text \<open>
  A network on which every fetch of the configuration yields the JSON text
  \<^verbatim>\<open>null\<close>, one on which every fetch is rejected, and an environment with no
  variable set.
\<close>

definition null_network :: "nat \<Rightarrow> error + jsval" where
  "null_network k = Inr JNull"

definition offline_network :: "nat \<Rightarrow> error + jsval" where
  "offline_network k = Inl (TypeError ''Failed to fetch'')"

definition empty_env :: "string \<Rightarrow> jsval" where
  "empty_env name = JUndefined"

section \<open>Facts about the string methods\<close>

lemma split_on_nonempty: "split_on sep s \<noteq> []"
  by (induction s) (auto split: list.splits)

lemma split_on_append:
  "split_on sep (x @ y) = butlast (split_on sep x) @ split_on sep (last (split_on sep x) @ y)"
proof (induction x)
  case Nil
  then show ?case by simp
next
  case (Cons a x)
  show ?case
  proof (cases "split_on sep x")
    case Nil
    then show ?thesis using split_on_nonempty by blast
  next
    case (Cons p ps)
    then show ?thesis using Cons.IH split_on_nonempty[of sep "p @ y"]
      by (cases ps) (auto split: list.splits)
  qed
qed

lemma index_from_notin: "c \<notin> set s \<Longrightarrow> index_from s c i = - 1"
  by (induction s arbitrary: i) auto

lemma index_from_append: "c \<notin> set l \<Longrightarrow> index_from (l @ c # r) c i = i + int (length l)"
  by (induction l arbitrary: i) auto

lemma indexOf_notin: "c \<notin> set s \<Longrightarrow> indexOf s c = - 1"
  by (simp add: indexOf_def index_from_notin)

lemma indexOf_append: "c \<notin> set l \<Longrightarrow> indexOf (l @ c # r) c = int (length l)"
  by (simp add: indexOf_def index_from_append)

lemma split_on_notin: "sep \<notin> set s \<Longrightarrow> split_on sep s = [s]"
  by (induction s) auto

lemma split_on_line: "sep \<notin> set l \<Longrightarrow> split_on sep (l @ sep # r) = l # split_on sep r"
  by (induction l) (auto split: list.splits simp: split_on_nonempty)

lemma slice_line: "slice (l @ c # r) 0 (int (length l)) = l"
  by (simp add: slice_def slice_index_def)

lemma slice_from_line: "slice_from (l @ c # r) (int (length l) + 1) = r"
  by (simp add: slice_from_def slice_index_def nat_add_distrib)

section \<open>The line loop on streams without blank lines\<close>

lemma parse_line_fold:
  "foldl (\<lambda>d l. parse_line parse (trim l) d) out ls = out @ events_of parse ls"
proof (induction ls arbitrary: out)
  case Nil
  then show ?case by (simp add: events_of_def)
next
  case (Cons l ls)
  show ?case
    by (simp add: Cons.IH)
       (simp add: events_of_def parse_line_def line_event_def
             split: option.splits)
qed

lemma lines_cases:
  obtains (none) "newline \<notin> set s"
  | (line) l r where "s = l @ newline # r" "newline \<notin> set l"
proof (cases "newline \<in> set s")
  case True
  then obtain l r where "s = l @ newline # r" "newline \<notin> set l"
    by (meson split_list_first)
  then show ?thesis using line by blast
next
  case False
  then show ?thesis using none by blast
qed

lemma drain_step:
  assumes "newline \<notin> set l" "trim l \<noteq> []"
  shows "drain parse (l @ newline # r) (indexOf (l @ newline # r) newline) out =
         drain parse r (indexOf r newline) (parse_line parse (trim l) out)"
proof -
  have ix: "indexOf (l @ newline # r) newline = int (length l)"
    using assms(1) by (rule indexOf_append)
  show ?thesis
    unfolding ix
    by (subst drain.simps) (simp add: slice_line slice_from_line assms(2))
qed

lemma drain_lines:
  assumes "\<forall>l \<in> set (complete_lines b). trim l \<noteq> []"
  shows "drain parse b (indexOf b newline) out =
         Some (partial_line b, out @ events_of parse (complete_lines b))"
  using assms
proof (induction "length b" arbitrary: b out rule: less_induct)
  case less
  show ?case
  proof (cases b rule: lines_cases)
    case none
    then show ?thesis
      by (subst drain.simps)
         (simp add: indexOf_notin complete_lines_def partial_line_def split_on_notin events_of_def)
  next
    case (line l r)
    have cl: "complete_lines b = l # complete_lines r"
      using line split_on_nonempty[of newline r]
      by (simp add: complete_lines_def split_on_line)
    have pl: "partial_line b = partial_line r"
      using line split_on_nonempty[of newline r]
      by (simp add: partial_line_def split_on_line)
    have nb: "trim l \<noteq> []" "\<forall>l \<in> set (complete_lines r). trim l \<noteq> []"
      using less.prems cl by auto
    have "drain parse b (indexOf b newline) out =
          drain parse r (indexOf r newline) (parse_line parse (trim l) out)"
      unfolding line(1) using line(2) nb(1) by (rule drain_step)
    also have "\<dots> = Some (partial_line r,
        parse_line parse (trim l) out @ events_of parse (complete_lines r))"
      using less.hyps[of r] nb(2) line(1) by simp
    also have "parse_line parse (trim l) out @ events_of parse (complete_lines r) =
       out @ events_of parse (complete_lines b)"
      unfolding cl
      by (simp add: events_of_def parse_line_def line_event_def
            split: option.splits)
    finally show ?thesis using pl by simp
  qed
qed

lemma complete_lines_append:
  "complete_lines (x @ y) = complete_lines x @ complete_lines (partial_line x @ y)"
  unfolding complete_lines_def partial_line_def
  by (subst split_on_append) (simp add: butlast_append split_on_nonempty)

lemma partial_line_append:
  "partial_line (x @ y) = partial_line (partial_line x @ y)"
  unfolding complete_lines_def partial_line_def
  by (subst split_on_append) (simp add: split_on_nonempty)

lemma events_of_append: "events_of parse (xs @ ys) = events_of parse xs @ events_of parse ys"
  by (simp add: events_of_def List.map_filter_def)

lemma split_on_pieces: "p \<in> set (split_on sep s) \<Longrightarrow> sep \<notin> set p"
proof (induction s arbitrary: p)
  case Nil
  then show ?case by simp
next
  case (Cons c s)
  then show ?case
    using split_on_nonempty[of sep s]
    by (cases "split_on sep s") (auto split: if_splits list.splits)
qed

lemma partial_line_no_newline: "newline \<notin> set (partial_line s)"
  unfolding partial_line_def
  using split_on_pieces[of "last (split_on newline s)" newline s] split_on_nonempty[of newline s]
  by simp

lemma read_chunks_lines:
  assumes "newline \<notin> set buffer" and "\<forall>l \<in> set (complete_lines (buffer @ concat chunks)). trim l \<noteq> []"
  shows "read_chunks parse (buffer, out) chunks =
         Some (partial_line (buffer @ concat chunks),
               out @ events_of parse (complete_lines (buffer @ concat chunks)))"
  using assms
proof (induction chunks arbitrary: buffer out)
  case Nil
  then show ?case
    by (simp add: complete_lines_def partial_line_def split_on_notin events_of_def
         )
next
  case (Cons c cs)
  have split: "complete_lines (buffer @ concat (c # cs)) =
      complete_lines (buffer @ c) @ complete_lines (partial_line (buffer @ c) @ concat cs)"
    using complete_lines_append[of "buffer @ c" "concat cs"] by simp
  have h1: "\<forall>l \<in> set (complete_lines (buffer @ c)). trim l \<noteq> []"
    and h2: "\<forall>l \<in> set (complete_lines (partial_line (buffer @ c) @ concat cs)). trim l \<noteq> []"
    using Cons.prems unfolding split by auto
  have od: "on_data parse (buffer, out) c =
      Some (partial_line (buffer @ c), out @ events_of parse (complete_lines (buffer @ c)))"
    unfolding on_data_def using drain_lines[OF h1] by simp
  show ?case
    using Cons.IH[OF partial_line_no_newline h2] od split partial_line_append[of "buffer @ c" "concat cs"]
    by (simp add: events_of_append)
qed

section \<open>A loop that never ends, and trimming\<close>

lemma drain_stuck_aux:
  assumes "drain parse buffer lineEnd delivered = Some y"
  shows "lineEnd \<noteq> 0"
proof (rule drain.raw_induct[where P = "\<lambda>_ _ k _ _. k \<noteq> 0", OF _ assms])
  fix f :: "(string \<Rightarrow> jsval option) \<Rightarrow> string \<Rightarrow> int \<Rightarrow> jsval list \<Rightarrow> (string \<times> jsval list) option"
    and p b k d r
  assume IH: "\<And>p' b' k' d' r'. f p' b' k' d' = Some r' \<Longrightarrow> k' \<noteq> (0::int)"
  assume step: "(if k \<noteq> - 1
      then if trim (slice b 0 k) = []
           then f p (slice_from b (k + 1)) k d
           else f p (slice_from b (k + 1)) (indexOf (slice_from b (k + 1)) newline)
                 (parse_line p (trim (slice b 0 k)) d)
      else Some (b, d)) = Some r"
  show "k \<noteq> 0"
  proof
    assume z: "k = 0"
    have "trim (slice b 0 0) = []"
      by (simp add: slice_def slice_index_def trim_def)
    with step z have "f p (slice_from b 1) 0 d = Some r"
      by simp
    from IH[OF this] show False by simp
  qed
qed

lemma drain_stuck: "drain parse buffer 0 delivered = None"
  using drain_stuck_aux[of parse buffer 0 delivered] by (cases "drain parse buffer 0 delivered") auto

lemma trim_empty_iff: "trim s = [] \<longleftrightarrow> blank s"
proof -
  let ?d = "dropWhile is_ws s"
  have "trim s = [] \<longleftrightarrow> ?d = []"
  proof
    assume "trim s = []"
    then have all: "\<forall>x \<in> set ?d. is_ws x"
      by (simp add: trim_def)
    show "?d = []"
    proof (rule ccontr)
      assume ne: "?d \<noteq> []"
      then have "\<not> is_ws (hd ?d)" by (rule hd_dropWhile)
      moreover have "hd ?d \<in> set ?d" using ne by simp
      ultimately show False using all by blast
    qed
  next
    assume "?d = []"
    then show "trim s = []" by (auto simp: trim_def dest: set_dropWhileD)
  qed
  also have "\<dots> \<longleftrightarrow> blank s"
    by (simp add: blank_def)
  finally show ?thesis .
qed

lemma trim_decompose:
  "s = takeWhile is_ws s @ trim s @ rev (takeWhile is_ws (rev (dropWhile is_ws s)))"
proof -
  have "rev (dropWhile is_ws s) =
        takeWhile is_ws (rev (dropWhile is_ws s)) @ dropWhile is_ws (rev (dropWhile is_ws s))"
    by simp
  then have "dropWhile is_ws s = trim s @ rev (takeWhile is_ws (rev (dropWhile is_ws s)))"
    unfolding trim_def by (metis rev_append rev_rev_ident)
  then show ?thesis
    by (metis takeWhile_dropWhile_id)
qed

lemma trim_ends:
  assumes "trim s \<noteq> []"
  shows "\<not> is_ws (hd (trim s))" "\<not> is_ws (last (trim s))"
proof -
  let ?d = "dropWhile is_ws s"
  have d: "?d \<noteq> []"
  proof
    assume "?d = []"
    then have "trim s = []" by (auto simp: trim_def dest: set_dropWhileD)
    with assms show False by simp
  qed
  have r: "dropWhile is_ws (rev ?d) \<noteq> []" using assms by (simp add: trim_def)
  have hd_d: "\<not> is_ws (hd ?d)" using d by (rule hd_dropWhile)
  have "last (trim s) = hd (dropWhile is_ws (rev ?d))"
    using r by (simp add: trim_def last_rev)
  then show "\<not> is_ws (last (trim s))" using hd_dropWhile[OF r] by simp
  have "\<not> is_ws (last (rev ?d))" using d hd_d by (simp add: last_rev)
  then have "last (dropWhile is_ws (rev ?d)) = last (rev ?d)"
    by (metis last_appendR r takeWhile_dropWhile_id)
  then have "hd (trim s) = hd ?d"
    using r d by (simp add: trim_def hd_rev last_rev)
  then show "\<not> is_ws (hd (trim s))" using hd_d by simp
qed

lemma trim_id:
  assumes "s = [] \<or> (\<not> is_ws (hd s) \<and> \<not> is_ws (last s))"
  shows "trim s = s"
proof (cases s)
  case Nil
  then show ?thesis by (simp add: trim_def)
next
  case (Cons a as)
  with assms have a: "\<not> is_ws a" and l: "\<not> is_ws (last s)" by auto
  have "dropWhile is_ws s = s" using a Cons by simp
  moreover have "dropWhile is_ws (rev s) = rev s"
    using l Cons by (cases "rev s") (auto simp: hd_rev[symmetric] dest: arg_cong[where f=hd])
  ultimately show ?thesis by (simp add: trim_def)
qed

section \<open>retrieveAndAnalyzeArticles on streams\<close>

lemma retrieve_lines:
  assumes "post w ''/capricorn-retrieve-full-articles'' (retrieve_request d ev m n) =
             (Inr (chunks, ending), w')"
    and "\<forall>line \<in> set (complete_lines (concat chunks)). \<not> blank line"
  shows "retrieveAndAnalyzeArticles parse post w d ev m n =
           Some ((settle ending, events_of parse (complete_lines (concat chunks))), w')"
proof -
  have "\<forall>l \<in> set (complete_lines ([] @ concat chunks)). trim l \<noteq> []"
    using assms(2) by (simp add: trim_empty_iff)
  then have "read_chunks parse ([], []) chunks =
      Some (partial_line ([] @ concat chunks),
            [] @ events_of parse (complete_lines ([] @ concat chunks)))"
    by (intro read_chunks_lines) simp_all
  then show ?thesis
    using assms(1) by (simp add: retrieveAndAnalyzeArticles_def)
qed

text \<open>
  C1. On a stream in which no newline-terminated line is blank, the call returns, and
  the sequence of values given to \<^verbatim>\<open>onProgress\<close> is the same for any two ways of
  cutting the stream into chunks: it is the sequence of events of the stream's complete
  lines, read one line at a time.
\<close>

theorem retrieve_chunk_boundary_invariance:
  assumes "post1 w1 ''/capricorn-retrieve-full-articles'' (retrieve_request d ev m n) =
             (Inr (chunks1, ending), w1')"
    and "post2 w2 ''/capricorn-retrieve-full-articles'' (retrieve_request d ev m n) =
             (Inr (chunks2, ending), w2')"
    and "concat chunks1 = concat chunks2"
    and "\<forall>line \<in> set (complete_lines (concat chunks1)). \<not> blank line"
  shows "retrieveAndAnalyzeArticles parse post1 w1 d ev m n =
           Some ((settle ending, events_of parse (complete_lines (concat chunks1))), w1')
       \<and> retrieveAndAnalyzeArticles parse post2 w2 d ev m n =
           Some ((settle ending, events_of parse (complete_lines (concat chunks1))), w2')"
proof -
  have "\<forall>line \<in> set (complete_lines (concat chunks2)). \<not> blank line"
    using assms(3,4) by simp
  from retrieve_lines[where post = post2 and parse = parse, OF assms(2) this]
       retrieve_lines[where post = post1 and parse = parse, OF assms(1) assms(4)]
  show ?thesis using assms(3) by simp
qed

theorem retrieve_chunk_boundary_invariance_witness:
  \<open>retrieveAndAnalyzeArticles json_parse
      (answering ([''{"type":"status"}\<newline>{"type":"done"}\<newline>''], End)) (0::nat)
      ''ALL'' [''relapse''] ''m'' 15 =
     Some ((Inr (), [JObj [(''type'', JStr ''status'')], JObj [(''type'', JStr ''done'')]]), 0)
   \<and> retrieveAndAnalyzeArticles json_parse
      (answering ([''{"type":"sta'', ''tus"}\<newline>{"type"'', '':"done"}\<newline>''], End)) (0::nat)
      ''ALL'' [''relapse''] ''m'' 15 =
     Some ((Inr (), [JObj [(''type'', JStr ''status'')], JObj [(''type'', JStr ''done'')]]), 0)\<close>
proof -
  let ?c1 = \<open>[''{"type":"status"}\<newline>{"type":"done"}\<newline>'']\<close>
  let ?c2 = \<open>[''{"type":"sta'', ''tus"}\<newline>{"type"'', '':"done"}\<newline>'']\<close>
  have same: "concat ?c1 = concat ?c2" by simp
  have lines: "\<forall>line \<in> set (complete_lines (concat ?c1)). \<not> blank line"
    by code_simp
  have ev: "events_of json_parse (complete_lines (concat ?c1)) =
      [JObj [(''type'', JStr ''status'')], JObj [(''type'', JStr ''done'')]]"
    by code_simp
  show ?thesis
    using retrieve_chunk_boundary_invariance[where ?post1.0 = "answering (?c1, End)"
        and ?w1.0 = "0::nat" and d = "''ALL''" and ev = "[''relapse'']" and m = "''m''"
        and n = 15 and ?chunks1.0 = ?c1 and ending = End and ?w1' = 0
        and ?post2.0 = "answering (?c2, End)" and ?w2.0 = "0::nat" and ?chunks2.0 = ?c2
        and ?w2' = 0 and parse = json_parse, OF _ _ same lines] ev
    by (simp add: answering_def settle_def)
qed

lemma wire_lines_rest:
  assumes "\<forall>l \<in> set ls. newline \<notin> set l" and "newline \<notin> set rest"
  shows "split_on newline (concat (map (\<lambda>l. l @ [newline]) ls) @ rest) = ls @ [rest]"
  using assms
proof (induction ls)
  case Nil
  then show ?case by (simp add: split_on_notin)
next
  case (Cons l ls)
  then show ?case using split_on_line[of newline l] by simp
qed

text \<open>
  C3, as amended. The client does not look for a terminal event. On a stream whose
  newline-terminated lines are not blank, however it is cut into chunks, the call
  returns and the values given to \<^verbatim>\<open>onProgress\<close> are exactly the events of the
  newline-terminated lines, in stream order: a line that does not parse to an object
  with a truthy \<^verbatim>\<open>type\<close> gives nothing, and so does the text after the last
  newline. So when exactly one of these events is terminal and it is the last of them,
  the sequence observed through \<^verbatim>\<open>onProgress\<close> has exactly one terminal event, at
  index length - 1, and nothing after it. What counts as terminal is any property of
  an event.
\<close>

theorem retrieve_delivers_in_stream_order:
  assumes "post w ''/capricorn-retrieve-full-articles'' (retrieve_request d ev m n) =
             (Inr (chunks, ending), w')"
    and "concat chunks = concat (map (\<lambda>l. l @ [newline]) lines) @ rest"
    and "\<forall>l \<in> set lines. newline \<notin> set l \<and> \<not> blank l"
    and "newline \<notin> set rest"
    and "terminal_is_last terminal (events_of parse lines)"
  shows "\<exists>delivered.
           retrieveAndAnalyzeArticles parse post w d ev m n = Some ((settle ending, delivered), w')
           \<and> delivered = events_of parse lines
           \<and> terminal_is_last terminal delivered"
proof -
  have nl: "\<forall>l \<in> set lines. newline \<notin> set l"
    using assms(3) by simp
  have cl: "complete_lines (concat chunks) = lines"
    unfolding assms(2) complete_lines_def
    using wire_lines_rest[OF nl assms(4)] by simp
  have "\<forall>line \<in> set (complete_lines (concat chunks)). \<not> blank line"
    unfolding cl using assms(3) by simp
  from retrieve_lines[where post = post and parse = parse, OF assms(1) this]
  have "retrieveAndAnalyzeArticles parse post w d ev m n =
          Some ((settle ending, events_of parse lines), w')"
    unfolding cl .
  then show ?thesis using assms(5) by simp
qed

theorem retrieve_delivers_in_stream_order_witness:
  \<open>retrieveAndAnalyzeArticles json_parse
      (answering ([''{"type":"status"}\<newline>{"ty'', ''pe":"done"}\<newline>''], End)) (0::nat)
      ''ALL'' [''relapse''] ''m'' 15 =
     Some ((Inr (), [JObj [(''type'', JStr ''status'')], JObj [(''type'', JStr ''done'')]]), 0)
   \<and> terminal_is_last is_done [JObj [(''type'', JStr ''status'')], JObj [(''type'', JStr ''done'')]]
   \<and> retrieveAndAnalyzeArticles json_parse
      (answering ([''{"type":"status"}\<newline>keep-al'', ''ive\<newline>{"type":"done"}\<newline>{"type":"la''], End)) (0::nat)
      ''ALL'' [''relapse''] ''m'' 15 =
     Some ((Inr (), [JObj [(''type'', JStr ''status'')], JObj [(''type'', JStr ''done'')]]), 0)\<close>
proof -
  let ?chunks = \<open>[''{"type":"status"}\<newline>{"ty'', ''pe":"done"}\<newline>'']\<close>
  let ?lines = \<open>[''{"type":"status"}'', ''{"type":"done"}'']\<close>
  let ?chunks2 = \<open>[''{"type":"status"}\<newline>keep-al'', ''ive\<newline>{"type":"done"}\<newline>{"type":"la'']\<close>
  let ?lines2 = \<open>[''{"type":"status"}'', ''keep-alive'', ''{"type":"done"}'']\<close>
  let ?rest2 = \<open>''{"type":"la''\<close>
  let ?events = "[JObj [(''type'', JStr ''status'')], JObj [(''type'', JStr ''done'')]]"
  have wire: "concat ?chunks = concat (map (\<lambda>l. l @ [newline]) ?lines) @ []"
    by (simp add: newline_def)
  have wire2: "concat ?chunks2 = concat (map (\<lambda>l. l @ [newline]) ?lines2) @ ?rest2"
    by (simp add: newline_def)
  have lines: "\<forall>l \<in> set ?lines. newline \<notin> set l \<and> \<not> blank l"
    by code_simp
  have lines2: "\<forall>l \<in> set ?lines2. newline \<notin> set l \<and> \<not> blank l"
    by code_simp
  have rest: "newline \<notin> set []" by simp
  have rest2: "newline \<notin> set ?rest2" by code_simp
  have ev: "events_of json_parse ?lines = ?events"
    by code_simp
  have ev2: "events_of json_parse ?lines2 = ?events"
    by code_simp
  have last: "terminal_is_last is_done ?events"
    by code_simp
  have last1: "terminal_is_last is_done (events_of json_parse ?lines)"
    unfolding ev by (rule last)
  have last2: "terminal_is_last is_done (events_of json_parse ?lines2)"
    unfolding ev2 by (rule last)
  show ?thesis
    using retrieve_delivers_in_stream_order[where post = "answering (?chunks, End)"
        and w = "0::nat" and d = "''ALL''" and ev = "[''relapse'']" and m = "''m''"
        and n = 15 and chunks = ?chunks and ending = End and w' = 0 and lines = ?lines
        and rest = "[]" and parse = json_parse and terminal = is_done,
        OF _ wire lines rest last1]
      retrieve_delivers_in_stream_order[where post = "answering (?chunks2, End)"
        and w = "0::nat" and d = "''ALL''" and ev = "[''relapse'']" and m = "''m''"
        and n = 15 and chunks = ?chunks2 and ending = End and w' = 0 and lines = ?lines2
        and rest = ?rest2 and parse = json_parse and terminal = is_done,
        OF _ wire2 lines2 rest2 last2]
    by (simp only: ev ev2 answering_def settle_def) simp
qed

text \<open>
  Without the condition on the stream the property fails: a stream with a line after
  the \<^verbatim>\<open>"done"\<close> event is passed on whole, so an event is delivered after the
  terminal one, whose index is then not length - 1.
\<close>

theorem retrieve_delivers_after_done:
  \<open>retrieveAndAnalyzeArticles json_parse
      (answering ([''{"type":"done"}\<newline>{"type":"status"}\<newline>''], End)) (0::nat)
      ''ALL'' [''relapse''] ''m'' 15 =
     Some ((Inr (), [JObj [(''type'', JStr ''done'')], JObj [(''type'', JStr ''status'')]]), 0)
   \<and> \<not> terminal_is_last is_done [JObj [(''type'', JStr ''done'')], JObj [(''type'', JStr ''status'')]]\<close>
  by code_simp

text \<open>
  Whenever the call returns, every value it has given to \<^verbatim>\<open>onProgress\<close> is a
  parsed object with a truthy \<^verbatim>\<open>type\<close>.
\<close>

lemma parse_line_typed:
  "typed_values parse delivered \<Longrightarrow> typed_values parse (parse_line parse line delivered)"
  by (auto simp: typed_values_def parse_line_def split: option.splits)

lemma drain_typed:
  assumes "drain parse buffer lineEnd delivered = Some y"
  shows "typed_values parse delivered \<longrightarrow> typed_values parse (snd y)"
proof (rule drain.raw_induct[where P = "\<lambda>p _ _ d y. typed_values p d \<longrightarrow> typed_values p (snd y)",
        OF _ assms])
  fix f :: "(string \<Rightarrow> jsval option) \<Rightarrow> string \<Rightarrow> int \<Rightarrow> jsval list \<Rightarrow> (string \<times> jsval list) option"
    and p b k d r
  assume IH: "\<And>p' b' k' d' r'. f p' b' k' d' = Some r' \<Longrightarrow>
                typed_values p' d' \<longrightarrow> typed_values p' (snd r')"
  assume step: "(if k \<noteq> - 1
      then if trim (slice b 0 k) = []
           then f p (slice_from b (k + 1)) k d
           else f p (slice_from b (k + 1)) (indexOf (slice_from b (k + 1)) newline)
                 (parse_line p (trim (slice b 0 k)) d)
      else Some (b, d)) = Some r"
  show "typed_values p d \<longrightarrow> typed_values p (snd r)"
    using step IH parse_line_typed[of p d]
    by (auto split: if_splits)
qed

lemma read_chunks_typed:
  assumes "read_chunks parse st chunks = Some st'" "typed_values parse (snd st)"
  shows "typed_values parse (snd st')"
  using assms
proof (induction chunks arbitrary: st)
  case Nil
  then show ?case by simp
next
  case (Cons c cs)
  then obtain st1 where s1: "on_data parse st c = Some st1" and s2: "read_chunks parse st1 cs = Some st'"
    by (auto split: option.splits)
  have "typed_values parse (snd st1)"
    using drain_typed[OF s1[unfolded on_data_def]] Cons.prems(2) by simp
  with Cons.IH[OF s2] show ?case by simp
qed

lemma retrieve_delivers_typed_values:
  assumes "retrieveAndAnalyzeArticles parse post w d ev m n = Some ((outcome, delivered), w')"
  shows "\<forall>v \<in> set delivered. has_type v \<and> (\<exists>line. parse line = Some v)"
proof -
  have "typed_values parse delivered"
    using assms read_chunks_typed[of parse "([], [])"]
    by (auto simp: retrieveAndAnalyzeArticles_def typed_values_def
          split: prod.splits sum.splits option.splits)
  then show ?thesis by (simp add: typed_values_def)
qed

text \<open>
  C8. The claim: a line that is empty is skipped and the lines after it are processed.
  The code: after an event line, an empty line and another event line, the
  \<^verbatim>\<open>continue\<close> leaves \<^verbatim>\<open>lineEnd\<close> at 0, every later round cuts an empty line
  from the front of the buffer, and the handler never returns; the second event is
  never delivered. With a line of one space instead, \<^verbatim>\<open>lineEnd\<close> stays at 1, the
  next round cuts the first character of the second event line as a line, and the
  second event is lost. Skipping the blank line would deliver both events.
\<close>

theorem retrieve_blank_line_breaks_loop:
  \<open>retrieveAndAnalyzeArticles json_parse
      (answering ([''{"type":"status"}\<newline>\<newline>{"type":"done"}\<newline>''], End)) (0::nat)
      ''ALL'' [''relapse''] ''m'' 15 = None
   \<and> skipping_blank_lines json_parse ''{"type":"status"}\<newline>\<newline>{"type":"done"}\<newline>'' =
       [JObj [(''type'', JStr ''status'')], JObj [(''type'', JStr ''done'')]]
   \<and> retrieveAndAnalyzeArticles json_parse
      (answering ([''{"type":"status"}\<newline> \<newline>{"type":"done"}\<newline>''], End)) (0::nat)
      ''ALL'' [''relapse''] ''m'' 15 = Some ((Inr (), [JObj [(''type'', JStr ''status'')]]), 0)
   \<and> skipping_blank_lines json_parse ''{"type":"status"}\<newline> \<newline>{"type":"done"}\<newline>'' =
       [JObj [(''type'', JStr ''status'')], JObj [(''type'', JStr ''done'')]]\<close>
proof -
  let ?l = \<open>''{"type":"status"}''\<close>
  let ?r = \<open>newline # ''{"type":"done"}\<newline>''\<close>
  have s: \<open>[] @ ''{"type":"status"}\<newline>\<newline>{"type":"done"}\<newline>'' = ?l @ newline # ?r\<close>
    by (simp add: newline_def)
  have l: "newline \<notin> set ?l" "trim ?l \<noteq> []"
    by code_simp+
  have "indexOf ?r newline = 0"
    by (simp add: indexOf_def)
  then have "drain json_parse (?l @ newline # ?r) (indexOf (?l @ newline # ?r) newline) [] = None"
    unfolding drain_step[OF l] by (simp only: drain_stuck)
  then have \<open>read_chunks json_parse ([], [])
      [''{"type":"status"}\<newline>\<newline>{"type":"done"}\<newline>''] = None\<close>
    unfolding read_chunks.simps on_data_def fst_conv snd_conv s by simp
  then have empty_line: \<open>retrieveAndAnalyzeArticles json_parse
      (answering ([''{"type":"status"}\<newline>\<newline>{"type":"done"}\<newline>''], End)) (0::nat)
      ''ALL'' [''relapse''] ''m'' 15 = None\<close>
    by (simp add: retrieveAndAnalyzeArticles_def answering_def)
  have space_line: \<open>retrieveAndAnalyzeArticles json_parse
      (answering ([''{"type":"status"}\<newline> \<newline>{"type":"done"}\<newline>''], End)) (0::nat)
      ''ALL'' [''relapse''] ''m'' 15 = Some ((Inr (), [JObj [(''type'', JStr ''status'')]]), 0)\<close>
    by code_simp
  have skipped: \<open>skipping_blank_lines json_parse
       ''{"type":"status"}\<newline>\<newline>{"type":"done"}\<newline>'' =
       [JObj [(''type'', JStr ''status'')], JObj [(''type'', JStr ''done'')]]\<close>
    \<open>skipping_blank_lines json_parse
       ''{"type":"status"}\<newline> \<newline>{"type":"done"}\<newline>'' =
       [JObj [(''type'', JStr ''status'')], JObj [(''type'', JStr ''done'')]]\<close>
    by code_simp+
  show ?thesis
    using empty_line space_line skipped by simp
qed

section \<open>streamChat on streams\<close>

text \<open>
  C2. The claim: any two ways of cutting the chat stream into chunks give the same
  sequence of \<^verbatim>\<open>onChunk\<close> values. The code: \<^verbatim>\<open>streamChat\<close> keeps no buffer
  between chunks, so a frame that arrives whole is delivered and the same frame cut in
  two is lost.
\<close>

theorem streamChat_split_frame_is_lost:
  \<open>streamChat json_parse (answering ([''data: {"text":"hi"}\<newline>\<newline>''], End)) (0::nat)
      ''hello'' ''u1'' ''c1'' = ((Inr (), [JStr ''hi'']), 0)
   \<and> streamChat json_parse (answering ([''data: {"te'', ''xt":"hi"}\<newline>\<newline>''], End)) (0::nat)
      ''hello'' ''u1'' ''c1'' = ((Inr (), []), 0)\<close>
  by code_simp


lemma split_on_frame:
  assumes "newline \<notin> set p"
  shows "split_on newline (sse_frame p @ rest) = (''data: '' @ p) # [] # split_on newline rest"
proof -
  have n: "newline \<notin> set (''data: '' @ p)"
    using assms by (simp add: newline_def)
  have "sse_frame p @ rest = (''data: '' @ p) @ newline # ([] @ newline # rest)"
    by (simp add: sse_frame_def)
  then show ?thesis
    using split_on_line[OF n, of "[] @ newline # rest"] split_on_line[of newline "[]" rest]
    by simp
qed

lemma chat_lines_frame:
  "chat_lines parse ((''data: '' @ p) # [] # ls) out =
     (if p = ''[DONE]'' then out else chat_lines parse ls (chat_frame parse p out))"
  by (simp add: startsWith_def slice_from_def slice_index_def)

lemma chat_lines_frames:
  assumes "\<forall>p \<in> set ps. newline \<notin> set p \<and> p \<noteq> ''[DONE]''"
  shows "chat_lines parse (split_on newline (concat (map sse_frame ps) @ rest)) out =
         chat_lines parse (split_on newline rest) (foldl (\<lambda>d p. chat_frame parse p d) out ps)"
  using assms
proof (induction ps arbitrary: out)
  case Nil
  then show ?case by simp
next
  case (Cons p ps)
  have p: "newline \<notin> set p" "p \<noteq> ''[DONE]''"
    and ps: "\<forall>p \<in> set ps. newline \<notin> set p \<and> p \<noteq> ''[DONE]''"
    using Cons.prems by auto
  let ?rest = "concat (map sse_frame ps) @ rest"
  have "concat (map sse_frame (p # ps)) @ rest = sse_frame p @ ?rest"
    by simp
  then have "chat_lines parse (split_on newline (concat (map sse_frame (p # ps)) @ rest)) out =
      chat_lines parse ((''data: '' @ p) # [] # split_on newline ?rest) out"
    by (simp only: split_on_frame[OF p(1)])
  also have "\<dots> = chat_lines parse (split_on newline ?rest) (chat_frame parse p out)"
    unfolding chat_lines_frame using p(2) by simp
  also have "\<dots> = chat_lines parse (split_on newline rest)
      (foldl (\<lambda>d p. chat_frame parse p d) (chat_frame parse p out) ps)"
    using Cons.IH[OF ps] .
  finally show ?case by simp
qed

lemma on_chat_data_frames:
  assumes "\<forall>p \<in> set ps. newline \<notin> set p \<and> p \<noteq> ''[DONE]''"
  shows "on_chat_data parse out (concat (map sse_frame ps)) =
           foldl (\<lambda>d p. chat_frame parse p d) out ps"
    and "on_chat_data parse out (concat (map sse_frame (ps @ [''[DONE]'']))) =
           foldl (\<lambda>d p. chat_frame parse p d) out ps"
proof -
  show "on_chat_data parse out (concat (map sse_frame ps)) =
           foldl (\<lambda>d p. chat_frame parse p d) out ps"
    using chat_lines_frames[OF assms, of parse "[]" out]
    by (simp add: on_chat_data_def startsWith_def)
  have d: "newline \<notin> set ''[DONE]''" by (simp add: newline_def)
  show "on_chat_data parse out (concat (map sse_frame (ps @ [''[DONE]'']))) =
           foldl (\<lambda>d p. chat_frame parse p d) out ps"
    using chat_lines_frames[OF assms, of parse "sse_frame ''[DONE]'' @ []" out]
    unfolding split_on_frame[OF d] chat_lines_frame
    by (simp add: on_chat_data_def)
qed

lemma on_chat_data_empty_groups:
  assumes "concat gs = []"
  shows "foldl (on_chat_data parse) out (map (\<lambda>g. concat (map sse_frame g)) gs) = out"
  using assms
  by (induction gs arbitrary: out) (auto simp: on_chat_data_def startsWith_def)

lemma chat_groups:
  assumes "concat gs = qs @ [''[DONE]'']"
    and "\<forall>p \<in> set qs. newline \<notin> set p \<and> p \<noteq> ''[DONE]''"
  shows "foldl (on_chat_data parse) out (map (\<lambda>g. concat (map sse_frame g)) gs) =
           foldl (\<lambda>d p. chat_frame parse p d) out qs"
  using assms
proof (induction gs arbitrary: qs out)
  case Nil
  then show ?case by simp
next
  case (Cons g gs)
  show ?case
  proof (cases "concat gs = []")
    case True
    have "concat (g # gs) = g @ concat gs" by simp
    then have g: "g = qs @ [''[DONE]'']" using Cons.prems(1) True by (simp only: append_Nil2)
    show ?thesis
      using on_chat_data_frames(2)[OF Cons.prems(2), of parse out]
            on_chat_data_empty_groups[OF True]
      by (simp add: g)
  next
    case False
    then obtain qs' where rest: "concat gs = qs' @ [''[DONE]'']" and qs: "qs = g @ qs'"
      using Cons.prems(1)
      by (metis append_assoc append_butlast_last_id butlast_append concat.simps(2) last_appendR
          last_snoc butlast_snoc)
    have gq: "\<forall>p \<in> set g. newline \<notin> set p \<and> p \<noteq> ''[DONE]''"
      and qq: "\<forall>p \<in> set qs'. newline \<notin> set p \<and> p \<noteq> ''[DONE]''"
      using Cons.prems(2) qs by auto
    show ?thesis
      using Cons.IH[OF rest qq] on_chat_data_frames(1)[OF gq, of parse out]
      by (simp add: qs)
  qed
qed

lemma chat_frame_text:
  assumes "parse p = Some v" "get_prop v ''text'' = Inr t" "truthy t"
  shows "chat_frame parse p out = out @ [t]"
  using assms by (simp add: chat_frame_def)

text \<open>
  C4, as amended. A chat stream of three frames, each carrying a truthy text, and then
  the frame \<^verbatim>\<open>data: [DONE]\<close>, cut into chunks so that every frame lies whole in
  one chunk: \<^verbatim>\<open>onChunk\<close> is called three times, with the three texts in the order
  sent, nothing is delivered for the sentinel, and the call completes.
\<close>

theorem streamChat_three_frames:
  assumes "post w ''/capricorn-chat'' (chat_request msg userId chatId) = (Inr (chunks, End), w')"
    and "chunks = map (\<lambda>g. concat (map sse_frame g)) groups"
    and "concat groups = [p1, p2, p3, ''[DONE]'']"
    and "\<forall>(p, t) \<in> set [(p1, t1), (p2, t2), (p3, t3)].
           newline \<notin> set p \<and> p \<noteq> ''[DONE]'' \<and>
           (\<exists>v. parse p = Some v \<and> get_prop v ''text'' = Inr t) \<and> truthy t"
  shows "streamChat parse post w msg userId chatId = ((Inr (), [t1, t2, t3]), w')"
proof -
  have c: "concat groups = [p1, p2, p3] @ [''[DONE]'']"
    using assms(3) by simp
  have q: "\<forall>p \<in> set [p1, p2, p3]. newline \<notin> set p \<and> p \<noteq> ''[DONE]''"
    using assms(4) by simp
  have f: "chat_frame parse p1 out = out @ [t1]" "chat_frame parse p2 out = out @ [t2]"
      "chat_frame parse p3 out = out @ [t3]" for out
    using assms(4) by (auto intro: chat_frame_text)
  have "foldl (on_chat_data parse) [] chunks = [t1, t2, t3]"
    unfolding assms(2) chat_groups[OF c q] by (simp add: f)
  then show ?thesis
    using assms(1) by (simp add: streamChat_def settle_def)
qed

theorem streamChat_three_frames_witness:
  \<open>streamChat json_parse
      (answering ([''data: {"text":"Hel"}\<newline>\<newline>'',
                   ''data: {"text":"lo "}\<newline>\<newline>data: {"text":"there"}\<newline>\<newline>'',
                   ''data: [DONE]\<newline>\<newline>''], End))
      (0::nat) ''hello'' ''u1'' ''c1'' =
     ((Inr (), [JStr ''Hel'', JStr ''lo '', JStr ''there'']), 0)\<close>
proof -
  let ?p1 = \<open>''{"text":"Hel"}''\<close>
  let ?p2 = \<open>''{"text":"lo "}''\<close>
  let ?p3 = \<open>''{"text":"there"}''\<close>
  let ?groups = "[[?p1], [?p2, ?p3], [''[DONE]'']]"
  let ?chunks = \<open>[''data: {"text":"Hel"}\<newline>\<newline>'',
       ''data: {"text":"lo "}\<newline>\<newline>data: {"text":"there"}\<newline>\<newline>'',
       ''data: [DONE]\<newline>\<newline>'']\<close>
  have chunks: "?chunks = map (\<lambda>g. concat (map sse_frame g)) ?groups"
    by (simp add: sse_frame_def newline_def)
  have groups: "concat ?groups = [?p1, ?p2, ?p3, ''[DONE]'']"
    by simp
  have p1: "json_parse ?p1 = Some (JObj [(''text'', JStr ''Hel'')])"
    and p2: "json_parse ?p2 = Some (JObj [(''text'', JStr ''lo '')])"
    and p3: "json_parse ?p3 = Some (JObj [(''text'', JStr ''there'')])"
    by code_simp+
  have payloads: "\<forall>(p, t) \<in> set [(?p1, JStr ''Hel''), (?p2, JStr ''lo ''), (?p3, JStr ''there'')].
       newline \<notin> set p \<and> p \<noteq> ''[DONE]'' \<and>
       (\<exists>v. json_parse p = Some v \<and> get_prop v ''text'' = Inr t) \<and> truthy t"
    by (simp add: p1 p2 p3 newline_def)
  show ?thesis
    using streamChat_three_frames[where post = "answering (?chunks, End)" and w = "0::nat"
        and msg = "''hello''" and userId = "''u1''" and chatId = "''c1''" and chunks = ?chunks
        and w' = 0 and groups = ?groups and parse = json_parse, OF _ chunks groups payloads]
    by (simp add: answering_def)
qed

text \<open>
  Both conditions are needed: a frame whose text is the empty string gives no call of
  \<^verbatim>\<open>onChunk\<close> (two calls for three frames), and a frame cut across two chunks
  gives none either.
\<close>

theorem streamChat_three_frames_counterexample:
  \<open>streamChat json_parse
      (answering ([''data: {"text":"a"}\<newline>\<newline>data: {"text":""}\<newline>\<newline>data: {"text":"b"}\<newline>\<newline>data: [DONE]\<newline>\<newline>''], End))
      (0::nat) ''hello'' ''u1'' ''c1'' = ((Inr (), [JStr ''a'', JStr ''b'']), 0)
   \<and> streamChat json_parse
      (answering ([''data: {"text":"a"}\<newline>\<newline>data: {"text":"b"}\<newline>\<newline>data: {"te'',
                   ''xt":"c"}\<newline>\<newline>data: [DONE]\<newline>\<newline>''], End))
      (0::nat) ''hello'' ''u1'' ''c1'' = ((Inr (), [JStr ''a'', JStr ''b'']), 0)\<close>
  by code_simp

section \<open>extractEvents and extractDisease\<close>

lemma split_on_join: "join [sep] (split_on sep s) = s"
proof (induction s)
  case Nil
  then show ?case by simp
next
  case (Cons c s)
  obtain p ps where sp: "split_on sep s = p # ps"
    using split_on_nonempty[of sep s] by (cases "split_on sep s") auto
  show ?case
    using Cons.IH sp by (cases ps) auto
qed

lemma keep_event_iff: "keep_event e \<longleftrightarrow> \<not> blank e"
proof -
  have "trim '' '' = []" by (simp add: trim_def is_ws_def)
  then show ?thesis
    unfolding keep_event_def using trim_empty_iff[of e] by auto
qed

text \<open>
  C5. When the capability answers with a string, \<^verbatim>\<open>extractEvents\<close> returns the
  pieces of that string between double quotes, without the pieces that are empty or
  hold white space only; so every returned event has a character that is not white
  space. The pieces are those of a split: joined with double quotes they give the
  string back, and none contains a double quote.
\<close>

theorem extractEvents_splits_and_filters:
  assumes "post w ''/pubmed-search-tester-extract-events'' (events_request t promptContent) =
             (Inr (JStr s), w')"
  shows "fst (extractEvents post w t promptContent) =
           Inr (filter (\<lambda>e. \<not> blank e) (split_on dquote s))
       \<and> (\<forall>e \<in> set (filter (\<lambda>e. \<not> blank e) (split_on dquote s)). \<exists>c \<in> set e. \<not> is_ws c)
       \<and> join [dquote] (split_on dquote s) = s
       \<and> (\<forall>e \<in> set (split_on dquote s). dquote \<notin> set e)"
proof -
  have "keep_event = (\<lambda>e. \<not> blank e)"
    by (rule ext) (rule keep_event_iff)
  then have "filter keep_event (split_on dquote s) = filter (\<lambda>e. \<not> blank e) (split_on dquote s)"
    by simp
  then have "fst (extractEvents post w t promptContent) =
           Inr (filter (\<lambda>e. \<not> blank e) (split_on dquote s))"
    using assms by (simp add: extractEvents_def)
  moreover have "\<forall>e \<in> set (filter (\<lambda>e. \<not> blank e) (split_on dquote s)). \<exists>c \<in> set e. \<not> is_ws c"
    by (auto simp: blank_def)
  moreover have "\<forall>e \<in> set (split_on dquote s). dquote \<notin> set e"
    using split_on_pieces by blast
  ultimately show ?thesis
    using split_on_join by blast
qed

theorem extractEvents_splits_and_filters_witness:
  \<open>fst (extractEvents (answering (JStr ''"fever" "rash", " " ''))
         (0::nat) ''case notes'' ''prompt'') = Inr [''fever'', ''rash'', '', '']\<close>
proof -
  have f: \<open>filter (\<lambda>e. \<not> blank e) (split_on dquote ''"fever" "rash", " " '') =
      [''fever'', ''rash'', '', '']\<close>
    by code_simp
  show ?thesis
    using extractEvents_splits_and_filters[where post = \<open>answering (JStr ''"fever" "rash", " " '')\<close>
      and w = "0::nat" and t = "''case notes''" and promptContent = "''prompt''"
      and s = \<open>''"fever" "rash", " " ''\<close> and w' = 0]
    by (simp only: f answering_def)
qed

text \<open>
  C6. When the capability answers with a string, \<^verbatim>\<open>extractDisease\<close> returns that
  string without its leading and trailing white space: the string is a blank prefix,
  the result, and a blank suffix, the result neither starts nor ends with white space,
  and a string that has no white space at either end is returned as it is.
\<close>

theorem extractDisease_trims:
  assumes "post w ''/pubmed-search-tester-extract-disease'' (text_request t) = (Inr (JStr s), w')"
  shows "fst (extractDisease post w t) = Inr (trim s)
       \<and> (\<exists>l r. s = l @ trim s @ r \<and> blank l \<and> blank r)
       \<and> (trim s \<noteq> [] \<longrightarrow> \<not> is_ws (hd (trim s)) \<and> \<not> is_ws (last (trim s)))
       \<and> (s = [] \<or> (\<not> is_ws (hd s) \<and> \<not> is_ws (last s)) \<longrightarrow> trim s = s)"
proof -
  have "fst (extractDisease post w t) = Inr (trim s)"
    using assms by (simp add: extractDisease_def)
  moreover have "\<exists>l r. s = l @ trim s @ r \<and> blank l \<and> blank r"
  proof (intro exI conjI)
    show "s = takeWhile is_ws s @ trim s @ rev (takeWhile is_ws (rev (dropWhile is_ws s)))"
      by (rule trim_decompose)
    show "blank (takeWhile is_ws s)"
      by (auto simp: blank_def dest: set_takeWhileD)
    show "blank (rev (takeWhile is_ws (rev (dropWhile is_ws s))))"
      by (auto simp: blank_def dest: set_takeWhileD)
  qed
  ultimately show ?thesis
    using trim_ends[of s] trim_id[of s] by blast
qed

theorem extractDisease_trims_witness:
  \<open>fst (extractDisease (answering (JStr ''  Acute myeloid leukemia\<newline>'')) (0::nat) ''case notes'') =
     Inr ''Acute myeloid leukemia''
   \<and> fst (extractDisease (answering (JStr ''Neuroblastoma'')) (0::nat) ''case notes'') =
     Inr ''Neuroblastoma''\<close>
proof -
  have t1: \<open>trim ''  Acute myeloid leukemia\<newline>'' = ''Acute myeloid leukemia''\<close>
    and t2: \<open>trim ''Neuroblastoma'' = ''Neuroblastoma''\<close>
    by code_simp+
  show ?thesis
    using extractDisease_trims[where post = \<open>answering (JStr ''  Acute myeloid leukemia\<newline>'')\<close>
        and w = "0::nat" and t = "''case notes''" and s = \<open>''  Acute myeloid leukemia\<newline>''\<close>
        and w' = 0]
      extractDisease_trims[where post = \<open>answering (JStr ''Neuroblastoma'')\<close>
        and w = "0::nat" and t = "''case notes''" and s = \<open>''Neuroblastoma''\<close> and w' = 0]
    by (simp only: t1 t2 answering_def)
qed

text \<open>
  C7. With a capability whose answer depends on the request only and not on the state
  the earlier calls left behind, a second call of \<^verbatim>\<open>extractDisease\<close> on the same
  text, made in the world after the first call, gives the same result as the first.
\<close>

theorem extractDisease_deterministic:
  assumes "\<forall>w1 w2 path body. fst (post w1 path body) = fst (post w2 path body)"
  shows "fst (extractDisease post (snd (extractDisease post w t)) t) =
         fst (extractDisease post w t)"
proof -
  have r: "fst (extractDisease post v t) =
      (case fst (post v ''/pubmed-search-tester-extract-disease'' (text_request t)) of
         Inl e \<Rightarrow> Inl e | Inr data \<Rightarrow> call_trim data)" for v
    by (simp add: extractDisease_def split: prod.splits sum.splits)
  show ?thesis
    unfolding r using assms by metis
qed

theorem extractDisease_deterministic_witness:
  \<open>fst (extractDisease (counting (JStr '' Wilms tumor '')) 1 ''case notes'') = Inr ''Wilms tumor''
   \<and> fst (extractDisease (counting (JStr '' Wilms tumor '')) 0 ''case notes'') = Inr ''Wilms tumor''
   \<and> snd (extractDisease (counting (JStr '' Wilms tumor '')) 0 ''case notes'') = 1\<close>
proof -
  have det: "\<forall>w1 w2 path body. fst (counting (JStr '' Wilms tumor '') w1 path body) =
       fst (counting (JStr '' Wilms tumor '') w2 path body)"
    by (simp add: counting_def)
  have first: "fst (extractDisease (counting (JStr '' Wilms tumor '')) 0 ''case notes'') =
       Inr ''Wilms tumor''"
    and after: "snd (extractDisease (counting (JStr '' Wilms tumor '')) 0 ''case notes'') = 1"
    by code_simp+
  show ?thesis
    using extractDisease_deterministic[OF det, of 0 "''case notes''"] first after
    by simp
qed

section \<open>redactSensitiveInfo\<close>

text \<open>
  C9. What \<^verbatim>\<open>redactSensitiveInfo\<close> does on every answer of the capability. On a
  capability error it raises an error whose message wraps the message of that error,
  and returns nothing. On a successful response it returns the \<^verbatim>\<open>redactedText\<close>
  field of the response data (for an object, the member of that name, \<^verbatim>\<open>undefined\<close>
  if there is none); only when the field cannot be read, the data being \<^verbatim>\<open>null\<close> or
  \<^verbatim>\<open>undefined\<close>, it raises, wrapping the message of that TypeError. Conversely a
  returned value is the field of a successful response, and a raised error wraps the
  message of the failure that caused it. The world is left as the capability left it.
  No path returns the input text.
\<close>

theorem redactSensitiveInfo_returns_field_or_raises:
  "(\<forall>e. fst (post w ''/capricorn-redact-sensitive-info'' (text_request t)) = Inl e \<longrightarrow>
        fst (redactSensitiveInfo post w t) =
          Inl (Error (''Failed to redact sensitive information: '' @ message e)))
   \<and> (\<forall>data v. fst (post w ''/capricorn-redact-sensitive-info'' (text_request t)) = Inr data
          \<and> get_prop data ''redactedText'' = Inr v \<longrightarrow>
        fst (redactSensitiveInfo post w t) = Inr v)
   \<and> (\<forall>members. fst (post w ''/capricorn-redact-sensitive-info'' (text_request t)) =
          Inr (JObj members) \<longrightarrow>
        fst (redactSensitiveInfo post w t) =
          Inr (case map_of (rev members) ''redactedText'' of None \<Rightarrow> JUndefined | Some v \<Rightarrow> v))
   \<and> (\<forall>data e. fst (post w ''/capricorn-redact-sensitive-info'' (text_request t)) = Inr data
          \<and> get_prop data ''redactedText'' = Inl e \<longrightarrow>
        fst (redactSensitiveInfo post w t) =
          Inl (Error (''Failed to redact sensitive information: '' @ message e)))
   \<and> (\<forall>v. fst (redactSensitiveInfo post w t) = Inr v \<longrightarrow>
        (\<exists>data. fst (post w ''/capricorn-redact-sensitive-info'' (text_request t)) = Inr data
                \<and> get_prop data ''redactedText'' = Inr v))
   \<and> (\<forall>e'. fst (redactSensitiveInfo post w t) = Inl e' \<longrightarrow>
        (\<exists>cause.
           (fst (post w ''/capricorn-redact-sensitive-info'' (text_request t)) = Inl cause
            \<or> (\<exists>data. fst (post w ''/capricorn-redact-sensitive-info'' (text_request t)) = Inr data
                  \<and> get_prop data ''redactedText'' = Inl cause))
           \<and> e' = Error (''Failed to redact sensitive information: '' @ message cause)))
   \<and> snd (redactSensitiveInfo post w t) =
       snd (post w ''/capricorn-redact-sensitive-info'' (text_request t))"
proof -
  let ?prefix = "''Failed to redact sensitive information: ''"
  obtain answer w' where
    p: "post w ''/capricorn-redact-sensitive-info'' (text_request t) = (answer, w')"
    by (cases "post w ''/capricorn-redact-sensitive-info'' (text_request t)")
  show ?thesis
  proof (cases answer)
    case (Inl e)
    then have "redactSensitiveInfo post w t = (Inl (Error (?prefix @ message e)), w')"
      using p by (simp add: redactSensitiveInfo_def)
    then show ?thesis using p Inl by auto
  next
    case (Inr data)
    show ?thesis
    proof (cases "get_prop data ''redactedText''")
      case (Inl e)
      then have "redactSensitiveInfo post w t = (Inl (Error (?prefix @ message e)), w')"
        using p Inr by (simp add: redactSensitiveInfo_def)
      then show ?thesis using p Inr Inl by auto
    next
      case field: (Inr v)
      then have "redactSensitiveInfo post w t = (Inr v, w')"
        using p Inr by (simp add: redactSensitiveInfo_def)
      then show ?thesis using p Inr field by auto
    qed
  qed
qed

theorem redactSensitiveInfo_returns_field_or_raises_witness:
  \<open>fst (redactSensitiveInfo (rejecting (AxiosError ''Network Error'')) (0::nat) ''Jane Doe, 7 years'') =
     Inl (Error ''Failed to redact sensitive information: Network Error'')
   \<and> fst (redactSensitiveInfo (answering (JObj [(''redactedText'', JStr ''[NAME], 7 years'')]))
          (0::nat) ''Jane Doe, 7 years'') = Inr (JStr ''[NAME], 7 years'')
   \<and> fst (redactSensitiveInfo (answering JNull) (0::nat) ''Jane Doe, 7 years'') =
     Inl (Error (''Failed to redact sensitive information: Cannot read properties of null (reading '' @
            quoted ''redactedText'' @ '')''))\<close>
proof -
  let ?path = "''/capricorn-redact-sensitive-info''"
  let ?t = "''Jane Doe, 7 years''"
  let ?obj = "JObj [(''redactedText'', JStr ''[NAME], 7 years'')]"
  have rej: "fst (rejecting (AxiosError ''Network Error'') (0::nat) ?path (text_request ?t)) =
       Inl (AxiosError ''Network Error'')"
    by (simp add: rejecting_def)
  have ans: "fst (answering ?obj (0::nat) ?path (text_request ?t)) = Inr ?obj"
    by (simp add: answering_def)
  have null: "fst (answering JNull (0::nat) ?path (text_request ?t)) = Inr JNull"
    by (simp add: answering_def)
  have thrown: "get_prop JNull ''redactedText'' =
      Inl (TypeError (''Cannot read properties of null (reading '' @ quoted ''redactedText'' @ '')''))"
    by simp
  from redactSensitiveInfo_returns_field_or_raises[of "rejecting (AxiosError ''Network Error'')"
      "0::nat" ?t] rej
  have a: "fst (redactSensitiveInfo (rejecting (AxiosError ''Network Error'')) (0::nat) ?t) =
     Inl (Error (''Failed to redact sensitive information: '' @ message (AxiosError ''Network Error'')))"
    by blast
  from redactSensitiveInfo_returns_field_or_raises[of "answering ?obj" "0::nat" ?t] ans
  have b: "fst (redactSensitiveInfo (answering ?obj) (0::nat) ?t) =
     Inr (case map_of (rev [(''redactedText'', JStr ''[NAME], 7 years'')]) ''redactedText'' of
            None \<Rightarrow> JUndefined | Some v \<Rightarrow> v)"
    by blast
  from redactSensitiveInfo_returns_field_or_raises[of "answering JNull" "0::nat" ?t] null thrown
  have c: "fst (redactSensitiveInfo (answering JNull) (0::nat) ?t) =
     Inl (Error (''Failed to redact sensitive information: '' @
        message (TypeError (''Cannot read properties of null (reading '' @
          quoted ''redactedText'' @ '')''))))"
    by blast
  show ?thesis using a b c by simp
qed


section \<open>getConfig\<close>

lemma getConfig_cached:
  assumes "truthy (config m)"
  shows "getConfig network env m = (config m, m)"
  using assms by (simp add: getConfig_def getConfig_begin_def)

lemma getConfig_calls_cached:
  assumes "truthy (config m)"
  shows "getConfig_calls network env n m = (replicate n (config m), m)"
  using assms by (induction n) (simp_all add: getConfig_cached)

text \<open>
  C10, as amended. For calls made one after another: when the first call resolves to a
  truthy value (the fetched JSON value, or the fallback built from the environment
  when the fetch or the reading of its body fails, which is an object and so truthy),
  it has fetched once and stored the value, and every later call, whatever the network
  and the environment then are, returns that same value and leaves the module as it
  is, so it does not fetch.
\<close>

theorem getConfig_fetches_once:
  assumes "getConfig network env loaded = (c, m)"
    and "truthy c"
  shows "c = (case network 0 of Inl _ \<Rightarrow> fallback env | Inr json \<Rightarrow> json)
       \<and> config m = c \<and> fetches m = 1
       \<and> (\<forall>n network' env'. getConfig_calls network' env' n m = (replicate n c, m))"
proof -
  have first: "getConfig network env loaded =
      ((case network 0 of Inl _ \<Rightarrow> fallback env | Inr json \<Rightarrow> json),
       \<lparr>config = (case network 0 of Inl _ \<Rightarrow> fallback env | Inr json \<Rightarrow> json), fetches = 1\<rparr>)"
    by (simp add: getConfig_def getConfig_begin_def fetchConfig_begin_def loaded_def
          getConfig_resume_def fetchConfig_resume_def Let_def)
  with assms(1) have c: "c = (case network 0 of Inl _ \<Rightarrow> fallback env | Inr json \<Rightarrow> json)"
    and m: "m = \<lparr>config = c, fetches = 1\<rparr>"
    by auto
  have "truthy (config m)" using m assms(2) by simp
  from getConfig_calls_cached[OF this] m c show ?thesis by simp
qed

theorem getConfig_fetches_once_witness:
  "getConfig offline_network empty_env loaded =
     (fallback empty_env, \<lparr>config = fallback empty_env, fetches = 1\<rparr>)
   \<and> getConfig_calls null_network empty_env 3 \<lparr>config = fallback empty_env, fetches = 1\<rparr> =
     ([fallback empty_env, fallback empty_env, fallback empty_env],
      \<lparr>config = fallback empty_env, fetches = 1\<rparr>)"
proof -
  have first: "getConfig offline_network empty_env loaded =
     (fallback empty_env, \<lparr>config = fallback empty_env, fetches = 1\<rparr>)"
    by (simp add: getConfig_def getConfig_begin_def fetchConfig_begin_def loaded_def
          getConfig_resume_def fetchConfig_resume_def Let_def offline_network_def)
  have t: "truthy (fallback empty_env)"
    by (simp add: fallback_def)
  from getConfig_fetches_once[OF first t]
  have "getConfig_calls null_network empty_env 3 \<lparr>config = fallback empty_env, fetches = 1\<rparr> =
     (replicate 3 (fallback empty_env), \<lparr>config = fallback empty_env, fetches = 1\<rparr>)"
    by blast
  then show ?thesis using first by (simp add: numeral_3_eq_3)
qed

text \<open>
  Both conditions are needed. A fetched JSON value that is falsy (\<^verbatim>\<open>null\<close>) is
  returned but tested as "no configuration yet", so the second of two calls in a row
  fetches again. And two calls started before the first fetch has settled both find
  \<^verbatim>\<open>config\<close> still \<^verbatim>\<open>null\<close> and both fetch.
\<close>

theorem getConfig_fetches_twice:
  "getConfig_calls null_network empty_env 2 loaded = ([JNull, JNull], \<lparr>config = JNull, fetches = 2\<rparr>)
   \<and> fst (getConfig_begin loaded) = Awaiting 0
   \<and> fst (getConfig_begin (snd (getConfig_begin loaded))) = Awaiting 1
   \<and> fetches (snd (getConfig_begin (snd (getConfig_begin loaded)))) = 2"
  by (simp add: numeral_2_eq_2 getConfig_def getConfig_begin_def fetchConfig_begin_def loaded_def
          getConfig_resume_def fetchConfig_resume_def Let_def null_network_def)

end
